theory Spec2Isabelle
  imports Main
begin

section \<open>tiny-logger: the data model of \<^verbatim>\<open>tiny::Logger\<close>\<close>

text \<open>
  The enumeration \<^verbatim>\<open>Logger::Severity\<close> with the numeric value of each
  enumerator, which the code uses as an index into \<^verbatim>\<open>m_severityStrings\<close>.
\<close>

datatype Severity = FATAL | ERROR | WARNING | INFO | TRACE

fun Severity_value :: "Severity \<Rightarrow> nat" where
  "Severity_value FATAL = 0"
| "Severity_value ERROR = 1"
| "Severity_value WARNING = 2"
| "Severity_value INFO = 3"
| "Severity_value TRACE = 4"

text \<open>
  \<^verbatim>\<open>struct Options { std::string prompt = ""; char formatChar = '@'; }\<close>.
  A \<^verbatim>\<open>std::string\<close> is a sequence of bytes, here a \<^typ>\<open>char list\<close>.
\<close>

record Options =
  prompt :: string
  formatChar :: char

definition Options_default :: Options where
  "Options_default = \<lparr>prompt = [], formatChar = CHR ''@''\<rparr>"

text \<open>
  The state a call can read or change: the static member \<^verbatim>\<open>m_options\<close> and the
  stream \<^verbatim>\<open>std::cout\<close>. The stream is the sequence of characters inserted so far
  (\<open>cout\<close>) and the length of the prefix of it that a flush has pushed out
  (\<open>flushed\<close>).
\<close>

record process =
  m_options :: Options
  cout :: string
  flushed :: nat

text \<open>
  The state after static initialisation, \<^verbatim>\<open>Logger::Options Logger::m_options;\<close>
  with the default member initialisers, and nothing written yet.
\<close>

definition startup :: process where
  "startup = \<lparr>m_options = Options_default, cout = [], flushed = 0\<rparr>"

text \<open>The one exception the \<^verbatim>\<open>std::string\<close> members used here can throw.\<close>

datatype error = out_of_range

section \<open>The members of \<^verbatim>\<open>std::string\<close> and \<^verbatim>\<open>std::ostream\<close> the code calls\<close>

text \<open>
  \<^verbatim>\<open>s.find(c)\<close>: the least position holding \<open>c\<close>; \<^verbatim>\<open>npos\<close> is \<open>None\<close>.
\<close>

fun find_char :: "string \<Rightarrow> char \<Rightarrow> nat option" where
  "find_char [] c = None"
| "find_char (x # xs) c =
     (if x = c then Some 0 else map_option Suc (find_char xs c))"

text \<open>
  \<^verbatim>\<open>s.find(t)\<close> for a character sequence \<open>t\<close>: the least position at which
  \<open>t\<close> starts in \<open>s\<close>; \<^verbatim>\<open>npos\<close> is \<open>None\<close>.
\<close>

fun find_str :: "string \<Rightarrow> string \<Rightarrow> nat option" where
  "find_str [] t = (if t = [] then Some 0 else None)"
| "find_str (x # xs) t =
     (if take (length t) (x # xs) = t then Some 0
      else map_option Suc (find_str xs t))"

text \<open>
  \<^verbatim>\<open>s.substr(pos, n)\<close> and \<^verbatim>\<open>s.substr(pos)\<close>: both throw
  \<^verbatim>\<open>std::out_of_range\<close> when \<open>pos\<close> is beyond the size.
\<close>

definition substr :: "string \<Rightarrow> nat \<Rightarrow> nat \<Rightarrow> error + string" where
  "substr s pos n =
     (if length s < pos then Inl out_of_range else Inr (take n (drop pos s)))"

definition substr_from :: "string \<Rightarrow> nat \<Rightarrow> error + string" where
  "substr_from s pos =
     (if length s < pos then Inl out_of_range else Inr (drop pos s))"

text \<open>
  \<^verbatim>\<open>s.replace(pos, len, t)\<close>: throws when \<open>pos\<close> is beyond the size, and
  otherwise replaces the \<open>min len (size - pos)\<close> characters from \<open>pos\<close> by \<open>t\<close>.
\<close>

definition replace :: "string \<Rightarrow> nat \<Rightarrow> nat \<Rightarrow> string \<Rightarrow> error + string" where
  "replace s pos len t =
     (if length s < pos then Inl out_of_range
      else Inr (take pos s @ t @ drop (pos + min len (length s - pos)) s))"

text \<open>\<^verbatim>\<open>std::cout << s\<close> inserts the characters of \<open>s\<close>.\<close>

definition put :: "string \<Rightarrow> process \<Rightarrow> process" where
  "put s w = w\<lparr>cout := cout w @ s\<rparr>"

text \<open>
  \<^verbatim>\<open>std::cout << std::endl\<close> inserts a newline and flushes: every character
  inserted so far has then been pushed out.
\<close>

definition endl :: "process \<Rightarrow> process" where
  "endl w = (let w1 = put [CHR 0x0A] w in w1\<lparr>flushed := length (cout w1)\<rparr>)"

section \<open>Arguments and their rendering by \<^verbatim>\<open>operator<<\<close>\<close>

text \<open>
  The variadic arguments are heterogeneous; each is written with
  \<^verbatim>\<open>std::cout << next\<close>. An argument is one of: a string
  (\<^verbatim>\<open>const char*\<close> or \<^verbatim>\<open>std::string\<close>), a value of an integer type, a
  \<^verbatim>\<open>bool\<close>, a \<^verbatim>\<open>char\<close>, or an instance of a class derived from
  \<^verbatim>\<open>Loggable\<close>, carried by what its \<^verbatim>\<open>toString()\<close> returns. The stream
  has its default formatting flags: integers in decimal, \<^verbatim>\<open>bool\<close> as
  \<^verbatim>\<open>1\<close> or \<^verbatim>\<open>0\<close>.
\<close>

datatype loggable =
  LStr string
| LInt int
| LBool bool
| LChar char
| LObj string

fun decimal :: "nat \<Rightarrow> string" where
  "decimal n =
     (if n < 10 then [''0123456789'' ! n]
      else decimal (n div 10) @ [''0123456789'' ! (n mod 10)])"

fun render :: "loggable \<Rightarrow> string" where
  "render (LStr s) = s"
| "render (LInt i) = (if i < 0 then CHR ''-'' # decimal (nat (- i)) else decimal (nat i))"
| "render (LBool b) = (if b then ''1'' else ''0'')"
| "render (LChar c) = [c]"
| "render (LObj s) = s"

section \<open>The logger\<close>

text \<open>\<^verbatim>\<open>Logger::m_severityStrings\<close>; \<^verbatim>\<open>\x1b\<close> is the escape character.\<close>

definition m_severityStrings :: "string list" where
  "m_severityStrings =
     [CHR 0x1B # ''[1;31mFATAL'' @ CHR 0x1B # ''[0m'',
      CHR 0x1B # ''[31mERROR'' @ CHR 0x1B # ''[0m'',
      CHR 0x1B # ''[33mWARNING'' @ CHR 0x1B # ''[0m'',
      CHR 0x1B # ''[34mINFO'' @ CHR 0x1B # ''[0m'',
      ''TRACE'']"

text \<open>\<^verbatim>\<open>Logger::initialise\<close>: assigns the options.\<close>

definition initialise :: "Options \<Rightarrow> process \<Rightarrow> process" where
  "initialise opts w = w\<lparr>m_options := opts\<rparr>"

definition REPLACE_LEN :: nat where
  "REPLACE_LEN = 5"

definition REPLACE_STR :: string where
  "REPLACE_STR = ''{sev}''"

text \<open>
  \<^verbatim>\<open>Logger::m_preparePrompt\<close>. It is a static member, so it may touch
  \<^verbatim>\<open>m_options\<close>: the state is threaded through and returned. The replacement
  acts on the local \<^verbatim>\<open>temp\<close>.
\<close>

definition m_preparePrompt :: "Severity \<Rightarrow> process \<Rightarrow> error + (string \<times> process)" where
  "m_preparePrompt sev w =
     (if length (prompt (m_options w)) < REPLACE_LEN then Inr (prompt (m_options w), w)
      else
        (case find_str (prompt (m_options w)) REPLACE_STR of
           None \<Rightarrow> Inr (prompt (m_options w), w)
         | Some pos \<Rightarrow>
             (let temp = prompt (m_options w) in
              case replace temp pos REPLACE_LEN (m_severityStrings ! Severity_value sev) of
                Inl e \<Rightarrow> Inl e
              | Inr r \<Rightarrow> Inr (r, w))))"

text \<open>\<^verbatim>\<open>Logger::m_findNextFormatCharacter\<close>.\<close>

definition m_findNextFormatCharacter :: "process \<Rightarrow> string \<Rightarrow> error + string" where
  "m_findNextFormatCharacter w buffer =
     (case find_char buffer (formatChar (m_options w)) of
        Some pos \<Rightarrow> substr buffer 0 pos
      | None \<Rightarrow> Inr buffer)"

text \<open>
  \<^verbatim>\<open>Logger::m_processArguments\<close>, both overloads: the base case for an empty
  pack and the recursive case. The buffer is a reference the call assigns to, so its
  final value is returned with the state.
\<close>

fun m_processArguments ::
  "string \<Rightarrow> loggable list \<Rightarrow> process \<Rightarrow> error + (string \<times> process)" where
  "m_processArguments buffer [] w = Inr (buffer, put buffer w)"
| "m_processArguments buffer (next # args) w =
     (case m_findNextFormatCharacter w buffer of
        Inl e \<Rightarrow> Inl e
      | Inr trimmed \<Rightarrow>
          (let w1 = put trimmed w in
           if length trimmed = length buffer then Inr (buffer, w1)
           else
             (let w2 = put (render next) w1 in
              case substr_from buffer (length trimmed + 1) of
                Inl e \<Rightarrow> Inl e
              | Inr buffer' \<Rightarrow> m_processArguments buffer' args w2)))"

text \<open>\<^verbatim>\<open>Logger::log\<close>.\<close>

definition log :: "Severity \<Rightarrow> string \<Rightarrow> loggable list \<Rightarrow> process \<Rightarrow> error + process" where
  "log sev fmt args w =
     (case m_preparePrompt sev w of
        Inl e \<Rightarrow> Inl e
      | Inr (p, w1) \<Rightarrow>
          (let w2 = put p w1; buffer = fmt in
           case m_processArguments buffer args w2 of
             Inl e \<Rightarrow> Inl e
           | Inr (buffer', w3) \<Rightarrow> Inr (endl w3)))"

text \<open>
  The loop of \<^verbatim>\<open>Logger::logValue\<close>:
  \<^verbatim>\<open>for (size_t ii = 0; ii < len; ii++) format += "@ ";\<close>
\<close>

function logValue_loop :: "nat \<Rightarrow> nat \<Rightarrow> string \<Rightarrow> string" where
  "logValue_loop ii len format =
     (if ii < len then logValue_loop (ii + 1) len (format @ ''@ '') else format)"
  by pat_completeness auto
termination
  by (relation "measure (\<lambda>(ii, len, format). len - ii)") auto

text \<open>\<^verbatim>\<open>Logger::logValue\<close>; \<open>len\<close> is \<^verbatim>\<open>sizeof...(Args)\<close>.\<close>

definition logValue :: "loggable \<Rightarrow> loggable list \<Rightarrow> process \<Rightarrow> error + process" where
  "logValue initial args w =
     (let len = length args;
          format = logValue_loop 0 len [];
          format = format @ ''@''
      in case m_processArguments format (initial # args) w of
           Inl e \<Rightarrow> Inl e
         | Inr (format', w1) \<Rightarrow> Inr (endl w1))"

section \<open>The formatter as the specification words it\<close>

text \<open>
  The template with each placeholder character replaced, left to right, by the
  rendering of the successive arguments, until either the placeholders or the
  arguments run out.
\<close>

fun format_spec :: "char \<Rightarrow> string \<Rightarrow> loggable list \<Rightarrow> string" where
  "format_spec c template [] = template"
| "format_spec c [] (a # as) = []"
| "format_spec c (x # xs) (a # as) =
     (if x = c then render a @ format_spec c xs as
      else x # format_spec c xs (a # as))"


section \<open>Facts about the library members\<close>

declare decimal.simps [simp del]
declare logValue_loop.simps [simp del]

lemma find_char_None: "find_char s c = None \<longleftrightarrow> c \<notin> set s"
  by (induction s) auto

lemma find_char_Some:
  "find_char s c = Some p \<Longrightarrow>
   p < length s \<and> c \<notin> set (take p s) \<and> s = take p s @ c # drop (Suc p) s"
  by (induction s arbitrary: p) (auto split: if_splits)

lemma find_char_append:
  "find_char s c = Some p \<Longrightarrow> find_char (s @ r) c = Some p"
  by (induction s arbitrary: p) (auto split: if_splits)

lemma find_char_present: "c \<in> set s \<Longrightarrow> \<exists>p. find_char s c = Some p"
  using find_char_None [of s c] by (cases "find_char s c") auto

lemma m_options_put [simp]: "m_options (put s w) = m_options w"
  by (simp add: put_def)

lemma put_put [simp]: "put t (put s w) = put (s @ t) w"
  by (simp add: put_def)

section \<open>The placeholder formatter\<close>

lemma format_spec_absent:
  "c \<notin> set template \<Longrightarrow> format_spec c template args = template"
  by (induction c template args rule: format_spec.induct) auto

lemma format_spec_first:
  "c \<notin> set pre \<Longrightarrow>
   format_spec c (pre @ c # post) (a # as) = pre @ render a @ format_spec c post as"
  by (induction pre) auto

text \<open>
  The two ways a call with an argument left can go: no placeholder in the buffer, and
  the call prints the buffer and returns; or a first placeholder at \<open>pos\<close>, and the
  call prints what precedes it and the argument, and goes on behind it.
\<close>

lemma m_processArguments_stop:
  assumes "formatChar (m_options w) \<notin> set buffer"
  shows "m_processArguments buffer (a # as) w = Inr (buffer, put buffer w)"
proof -
  from assms have "find_char buffer (formatChar (m_options w)) = None"
    by (simp add: find_char_None)
  then show ?thesis
    by (simp add: m_findNextFormatCharacter_def)
qed

lemma m_processArguments_step:
  assumes "find_char buffer (formatChar (m_options w)) = Some pos"
  shows "m_processArguments buffer (a # as) w =
         m_processArguments (drop (Suc pos) buffer) as (put (take pos buffer @ render a) w)"
proof -
  from find_char_Some [OF assms] have "pos < length buffer" by simp
  with assms show ?thesis
    by (simp add: m_findNextFormatCharacter_def substr_def substr_from_def)
qed

lemma m_processArguments_format_spec:
  "\<exists>b. m_processArguments buffer args w =
         Inr (b, put (format_spec (formatChar (m_options w)) buffer args) w)"
proof (induction args arbitrary: buffer w)
  case Nil
  show ?case by simp
next
  case (Cons a as)
  let ?c = "formatChar (m_options w)"
  show ?case
  proof (cases "find_char buffer ?c")
    case None
    then have "?c \<notin> set buffer" by (simp add: find_char_None)
    then show ?thesis
      by (simp add: m_processArguments_stop format_spec_absent del: m_processArguments.simps)
  next
    case (Some pos)
    from find_char_Some [OF Some]
    have pre: "?c \<notin> set (take pos buffer)"
      and split: "buffer = take pos buffer @ ?c # drop (Suc pos) buffer"
      by simp_all
    let ?w2 = "put (take pos buffer @ render a) w"
    from Cons.IH [of "drop (Suc pos) buffer" ?w2]
    obtain b where b: "m_processArguments (drop (Suc pos) buffer) as ?w2 =
        Inr (b, put (format_spec ?c (drop (Suc pos) buffer) as) ?w2)"
      by auto
    have "format_spec ?c buffer (a # as) =
        take pos buffer @ render a @ format_spec ?c (drop (Suc pos) buffer) as"
      using format_spec_first [OF pre, of "drop (Suc pos) buffer" a as] split by simp
    with b show ?thesis
      by (simp add: m_processArguments_step [OF Some] del: m_processArguments.simps)
  qed
qed

text \<open>
  Claim C2. For every template and argument list, what the formatter
  (\<^verbatim>\<open>m_processArguments\<close>) inserts into the stream is the template with each
  occurrence of the configured placeholder character replaced, left to right, by the
  rendering of the successive arguments, until the placeholders or the arguments run
  out; the call throws nothing.
\<close>

theorem format_replaces_placeholders:
  "\<exists>b. m_processArguments template args w =
         Inr (b, w\<lparr>cout := cout w @ format_spec (formatChar (m_options w)) template args\<rparr>)"
  using m_processArguments_format_spec [of template args w] by (simp add: put_def)

text \<open>The template \<^verbatim>\<open>a@b@c\<close> with the arguments \<^verbatim>\<open>X\<close>, \<^verbatim>\<open>Y\<close> gives \<^verbatim>\<open>aXbYc\<close>.\<close>

theorem format_replaces_placeholders_witness:
  "\<exists>b. m_processArguments ''a@b@c'' [LStr ''X'', LStr ''Y''] startup =
         Inr (b, startup\<lparr>cout := ''aXbYc''\<rparr>)"
  using format_replaces_placeholders [of "''a@b@c''" "[LStr ''X'', LStr ''Y'']" startup]
  by (simp add: startup_def Options_default_def del: m_processArguments.simps)

text \<open>
  Claim C5. For every template with no occurrence of the configured placeholder
  character and every non-empty argument list, the formatter inserts the whole
  template as it is, renders none of the arguments and throws nothing.
\<close>

theorem format_without_placeholder:
  assumes "formatChar (m_options w) \<notin> set template" and "args \<noteq> []"
  shows "m_processArguments template args w =
         Inr (template, w\<lparr>cout := cout w @ template\<rparr>)"
proof -
  from assms(2) obtain a as where "args = a # as"
    by (cases args) auto
  with assms(1) show ?thesis
    by (simp add: m_processArguments_stop put_def del: m_processArguments.simps)
qed

theorem format_without_placeholder_witness:
  "formatChar (m_options startup) \<notin> set ''no placeholders here'' \<and>
   [LStr ''X''] \<noteq> [] \<and>
   m_processArguments ''no placeholders here'' [LStr ''X''] startup =
     Inr (''no placeholders here'', startup\<lparr>cout := ''no placeholders here''\<rparr>)"
proof -
  have h1: "formatChar (m_options startup) \<notin> set ''no placeholders here''"
    by (simp add: startup_def Options_default_def)
  have h2: "[LStr ''X''] \<noteq> []" by simp
  from format_without_placeholder [OF h1 h2]
  have "m_processArguments ''no placeholders here'' [LStr ''X''] startup =
     Inr (''no placeholders here'', startup\<lparr>cout := cout startup @ ''no placeholders here''\<rparr>)" .
  moreover have "cout startup = []" by (simp add: startup_def)
  ultimately show ?thesis using h1 h2 by (simp del: m_processArguments.simps)
qed

text \<open>
  Claim C9. When the arguments are exhausted, the rest of the template is inserted
  as it is, placeholder characters included, and the call returns normally. Here
  \<open>consumed\<close> is the part of the template that uses up the arguments: it holds as
  many placeholders as there are arguments and ends with one (or is empty when there
  is no argument), and \<open>rest\<close> is whatever follows.
\<close>

theorem format_arguments_exhausted:
  assumes "length (filter (\<lambda>x. x = formatChar (m_options w)) consumed) = length args"
    and "consumed = [] \<or> last consumed = formatChar (m_options w)"
  shows "m_processArguments (consumed @ rest) args w =
         Inr (rest, w\<lparr>cout := cout w @
                format_spec (formatChar (m_options w)) consumed args @ rest\<rparr>)"
  using assms
proof (induction args arbitrary: consumed w)
  case Nil
  then have "consumed = []"
    by (cases consumed rule: rev_cases) auto
  then show ?case by (simp add: put_def)
next
  case (Cons a as)
  let ?c = "formatChar (m_options w)"
  from Cons.prems(1) have "?c \<in> set consumed"
    by (auto simp: filter_empty_conv dest!: arg_cong [where f = "\<lambda>n. n = 0"])
  then obtain pos where pos: "find_char consumed ?c = Some pos"
    using find_char_present by blast
  let ?pre = "take pos consumed" and ?mid = "drop (Suc pos) consumed"
  from find_char_Some [OF pos]
  have lt: "pos < length consumed" and pre: "?c \<notin> set ?pre"
    and split: "consumed = ?pre @ ?c # ?mid"
    by simp_all
  let ?w2 = "put (?pre @ render a) w"
  have cnt: "length (filter (\<lambda>x. x = formatChar (m_options ?w2)) ?mid) = length as"
  proof -
    have "filter (\<lambda>x. x = ?c) ?pre = []"
      using pre by (auto simp: filter_empty_conv)
    then have "length (filter (\<lambda>x. x = ?c) consumed) =
        Suc (length (filter (\<lambda>x. x = ?c) ?mid))"
      by (subst split) simp
    with Cons.prems(1) show ?thesis by simp
  qed
  have lst: "?mid = [] \<or> last ?mid = formatChar (m_options ?w2)"
  proof (cases "?mid = []")
    case True
    then show ?thesis by simp
  next
    case False
    then have "last consumed = last ?mid" by (subst split) simp
    with Cons.prems(2) lt show ?thesis by auto
  qed
  have step: "m_processArguments (consumed @ rest) (a # as) w =
      m_processArguments (?mid @ rest) as ?w2"
    using m_processArguments_step [OF find_char_append [OF pos], of rest a as] lt by simp
  have spec: "format_spec ?c consumed (a # as) = ?pre @ render a @ format_spec ?c ?mid as"
    using format_spec_first [OF pre, of ?mid a as] split by simp
  from Cons.IH [OF cnt lst] step spec show ?case
    by (simp add: put_def del: m_processArguments.simps)
qed

text \<open>
  One argument against \<^verbatim>\<open>a@b@c@d\<close>: \<^verbatim>\<open>a@\<close> uses the argument up, and
  \<^verbatim>\<open>b@c@d\<close> comes out with its placeholders.
\<close>

theorem format_arguments_exhausted_witness:
  "length (filter (\<lambda>x. x = formatChar (m_options startup)) ''a@'') = length [LStr ''X''] \<and>
   (''a@'' = [] \<or> last ''a@'' = formatChar (m_options startup)) \<and>
   m_processArguments (''a@'' @ ''b@c@d'') [LStr ''X''] startup =
     Inr (''b@c@d'', startup\<lparr>cout := ''aXb@c@d''\<rparr>)"
proof -
  have h1: "length (filter (\<lambda>x. x = formatChar (m_options startup)) ''a@'') =
      length [LStr ''X'']"
    by (simp add: startup_def Options_default_def)
  have h2: "''a@'' = [] \<or> last ''a@'' = formatChar (m_options startup)"
    by (simp add: startup_def Options_default_def)
  from format_arguments_exhausted [OF h1 h2, of "''b@c@d''"]
  have "m_processArguments (''a@'' @ ''b@c@d'') [LStr ''X''] startup =
     Inr (''b@c@d'', startup\<lparr>cout := cout startup @
        format_spec (formatChar (m_options startup)) ''a@'' [LStr ''X''] @ ''b@c@d''\<rparr>)" .
  moreover have "cout startup = []" "formatChar (m_options startup) = CHR ''@''"
    by (simp_all add: startup_def Options_default_def)
  ultimately show ?thesis using h1 h2 by (simp del: m_processArguments.simps)
qed

section \<open>The prompt builder\<close>

text \<open>
  What \<^verbatim>\<open>find\<close> returns: a position inside the string at which \<open>t\<close> starts,
  with no earlier such position; and any such position is the one returned.
\<close>

lemma find_str_Some:
  "find_str s t = Some p \<Longrightarrow>
   p \<le> length s \<and> take (length t) (drop p s) = t \<and>
   (\<forall>q<p. take (length t) (drop q s) \<noteq> t)"
proof (induction s arbitrary: p)
  case Nil
  then show ?case by (auto split: if_splits)
next
  case (Cons x xs)
  show ?case
  proof (cases "take (length t) (x # xs) = t")
    case True
    with Cons.prems show ?thesis by simp
  next
    case False
    with Cons.prems obtain p' where p': "find_str xs t = Some p'" "p = Suc p'"
      by auto
    from Cons.IH [OF p'(1)] False p'(2) show ?thesis
      by (auto simp: less_Suc_eq_0_disj)
  qed
qed

lemma find_str_first:
  "p \<le> length s \<Longrightarrow> take (length t) (drop p s) = t \<Longrightarrow>
   (\<forall>q<p. take (length t) (drop q s) \<noteq> t) \<Longrightarrow> find_str s t = Some p"
proof (induction s arbitrary: p)
  case Nil
  then show ?case by auto
next
  case (Cons x xs)
  show ?case
  proof (cases p)
    case 0
    with Cons.prems show ?thesis by simp
  next
    case (Suc p')
    with Cons.prems have "take (length t) (x # xs) \<noteq> t"
      by (metis drop0 zero_less_Suc)
    moreover have "find_str xs t = Some p'"
    proof (rule Cons.IH)
      show "p' \<le> length xs" using Cons.prems(1) Suc by simp
      show "take (length t) (drop p' xs) = t" using Cons.prems(2) Suc by simp
      show "\<forall>q<p'. take (length t) (drop q xs) \<noteq> t"
      proof (intro allI impI)
        fix q assume "q < p'"
        then have "Suc q < p" using Suc by simp
        with Cons.prems(3) have "take (length t) (drop (Suc q) (x # xs)) \<noteq> t" by blast
        then show "take (length t) (drop q xs) \<noteq> t" by simp
      qed
    qed
    ultimately show ?thesis using Suc by simp
  qed
qed

lemma find_str_occurs:
  assumes "find_str s t = Some p"
  shows "s = take p s @ t @ drop (p + length t) s"
proof -
  from find_str_Some [OF assms] have t: "take (length t) (drop p s) = t" by simp
  have "take (length t) (drop p s) @ drop (p + length t) s = drop p s"
    by (metis append_take_drop_id drop_drop add.commute)
  with t have "t @ drop (p + length t) s = drop p s" by simp
  then have "take p s @ t @ drop (p + length t) s = take p s @ drop p s" by simp
  then show ?thesis by simp
qed

text \<open>
  When the marker is found at \<open>pos\<close>, the whole marker lies inside the prompt, so
  \<^verbatim>\<open>replace\<close> does not throw and exchanges exactly the five characters of it.
\<close>

lemma m_preparePrompt_found:
  assumes "find_str (prompt (m_options w)) ''{sev}'' = Some pos"
  shows "m_preparePrompt sev w =
     Inr (take pos (prompt (m_options w)) @ m_severityStrings ! Severity_value sev @
          drop (pos + 5) (prompt (m_options w)), w)"
proof -
  have n: "length ''{sev}'' = (5::nat)" by simp
  from find_str_Some [OF assms, unfolded n]
  have le: "pos \<le> length (prompt (m_options w))"
    and occ: "take 5 (drop pos (prompt (m_options w))) = ''{sev}''"
    by blast+
  from occ have "length (take 5 (drop pos (prompt (m_options w)))) = 5" by simp
  then have len: "pos + 5 \<le> length (prompt (m_options w))" by simp
  with assms le show ?thesis
    by (simp add: m_preparePrompt_def REPLACE_STR_def REPLACE_LEN_def replace_def Let_def min_def)
qed

lemma m_preparePrompt_total: "\<exists>p. m_preparePrompt sev w = Inr (p, w)"
proof (cases "find_str (prompt (m_options w)) ''{sev}''")
  case None
  then show ?thesis by (simp add: m_preparePrompt_def REPLACE_STR_def)
next
  case (Some pos)
  from m_preparePrompt_found [OF Some] show ?thesis by blast
qed

text \<open>
  Claim C4, as the specification states it, fails on its own example: the display
  string of \<^verbatim>\<open>INFO\<close> is \<^verbatim>\<open>\x1b[34mINFO\x1b[0m\<close>, with the colour escape
  sequences, so the prompt \<^verbatim>\<open>{sev}-{sev}\<close> does not become \<^verbatim>\<open>INFO-{sev}\<close>.
\<close>

theorem buildPrompt_INFO_counterexample:
  "m_preparePrompt INFO
     (initialise \<lparr>prompt = ''{sev}-{sev}'', formatChar = CHR ''@''\<rparr> startup) =
   Inr (CHR 0x1B # ''[34mINFO'' @ CHR 0x1B # ''[0m-{sev}'',
        initialise \<lparr>prompt = ''{sev}-{sev}'', formatChar = CHR ''@''\<rparr> startup) \<and>
   m_preparePrompt INFO
     (initialise \<lparr>prompt = ''{sev}-{sev}'', formatChar = CHR ''@''\<rparr> startup) \<noteq>
   Inr (''INFO-{sev}'',
        initialise \<lparr>prompt = ''{sev}-{sev}'', formatChar = CHR ''@''\<rparr> startup)"
  by (simp add: m_preparePrompt_def REPLACE_LEN_def REPLACE_STR_def replace_def
      initialise_def startup_def m_severityStrings_def)

text \<open>
  Claim C4, amended. The prompt builder substitutes only the first occurrence of the
  marker \<^verbatim>\<open>{sev}\<close> in the configured prompt, by the display string of the severity
  (\<^verbatim>\<open>m_severityStrings[sev]\<close>, colour escape sequences included), and leaves what
  follows it untouched, later occurrences of the marker included: when the prompt is
  \<open>pre\<close>, the marker, \<open>post\<close>, and the marker starts at no position before the end
  of \<open>pre\<close>, the result is \<open>pre\<close>, the display string, \<open>post\<close>.
\<close>

theorem buildPrompt_first_occurrence_only:
  assumes "prompt (m_options w) = pre @ ''{sev}'' @ post"
    and "\<not> (\<exists>q<length pre. take 5 (drop q (prompt (m_options w))) = ''{sev}'')"
  shows "m_preparePrompt sev w =
         Inr (pre @ m_severityStrings ! Severity_value sev @ post, w)"
proof -
  have n: "length ''{sev}'' = (5::nat)" by simp
  have "find_str (prompt (m_options w)) ''{sev}'' = Some (length pre)"
  proof (rule find_str_first, unfold n)
    show "length pre \<le> length (prompt (m_options w))" using assms(1) by simp
    show "take 5 (drop (length pre) (prompt (m_options w))) = ''{sev}''"
      using assms(1) by simp
    show "\<forall>q<length pre. take 5 (drop q (prompt (m_options w))) \<noteq> ''{sev}''"
      using assms(2) by blast
  qed
  from m_preparePrompt_found [OF this] assms(1) show ?thesis by simp
qed

text \<open>
  The prompt \<^verbatim>\<open>{sev}-{sev}\<close> with \<^verbatim>\<open>INFO\<close> gives the display string of
  \<^verbatim>\<open>INFO\<close> followed by \<^verbatim>\<open>-{sev}\<close>, and the prompt \<^verbatim>\<open>[{sev}] {sev}\<close>
  with \<^verbatim>\<open>TRACE\<close> gives \<^verbatim>\<open>[TRACE] {sev}\<close>.
\<close>

theorem buildPrompt_first_occurrence_only_witness:
  "m_preparePrompt INFO
     (initialise \<lparr>prompt = ''{sev}-{sev}'', formatChar = CHR ''@''\<rparr> startup) =
   Inr (CHR 0x1B # ''[34mINFO'' @ CHR 0x1B # ''[0m'' @ ''-{sev}'',
        initialise \<lparr>prompt = ''{sev}-{sev}'', formatChar = CHR ''@''\<rparr> startup) \<and>
   \<not> (\<exists>q<length ''[''. take 5 (drop q ''[{sev}] {sev}'') = ''{sev}'') \<and>
   m_preparePrompt TRACE
     (initialise \<lparr>prompt = ''[{sev}] {sev}'', formatChar = CHR ''@''\<rparr> startup) =
   Inr (''[TRACE] {sev}'',
        initialise \<lparr>prompt = ''[{sev}] {sev}'', formatChar = CHR ''@''\<rparr> startup)"
proof -
  let ?w = "initialise \<lparr>prompt = ''{sev}-{sev}'', formatChar = CHR ''@''\<rparr> startup"
  have h1: "prompt (m_options ?w) = [] @ ''{sev}'' @ ''-{sev}''"
    by (simp add: initialise_def)
  have h2: "\<not> (\<exists>q<length ([]::string). take 5 (drop q (prompt (m_options ?w))) = ''{sev}'')"
    by simp
  let ?v = "initialise \<lparr>prompt = ''[{sev}] {sev}'', formatChar = CHR ''@''\<rparr> startup"
  have p: "prompt (m_options ?v) = ''[{sev}] {sev}''"
    by (simp add: initialise_def)
  then have g1: "prompt (m_options ?v) = ''['' @ ''{sev}'' @ ''] {sev}''"
    by simp
  have g: "\<not> (\<exists>q<length ''[''. take 5 (drop q ''[{sev}] {sev}'') = ''{sev}'')"
    by simp
  with p have g2: "\<not> (\<exists>q<length ''[''. take 5 (drop q (prompt (m_options ?v))) = ''{sev}'')"
    by simp
  from buildPrompt_first_occurrence_only [OF h1 h2, of INFO]
    buildPrompt_first_occurrence_only [OF g1 g2, of TRACE] g
  show ?thesis by (simp add: m_severityStrings_def)
qed

text \<open>
  Claim C6. For every severity, when the configured prompt has no occurrence of
  \<^verbatim>\<open>{sev}\<close>, the prompt builder returns the prompt unchanged.
\<close>

theorem buildPrompt_without_marker:
  assumes "\<not> (\<exists>pre post. prompt (m_options w) = pre @ ''{sev}'' @ post)"
  shows "m_preparePrompt sev w = Inr (prompt (m_options w), w)"
proof (cases "find_str (prompt (m_options w)) ''{sev}''")
  case None
  then show ?thesis by (simp add: m_preparePrompt_def REPLACE_STR_def)
next
  case (Some p)
  from find_str_occurs [OF Some] assms show ?thesis by blast
qed

theorem buildPrompt_without_marker_witness:
  "\<not> (\<exists>pre post. '' * tiny | '' = pre @ ''{sev}'' @ post) \<and>
   m_preparePrompt WARNING
     (initialise \<lparr>prompt = '' * tiny | '', formatChar = CHR ''@''\<rparr> startup) =
   Inr ('' * tiny | '',
        initialise \<lparr>prompt = '' * tiny | '', formatChar = CHR ''@''\<rparr> startup)"
proof -
  let ?w = "initialise \<lparr>prompt = '' * tiny | '', formatChar = CHR ''@''\<rparr> startup"
  have p: "prompt (m_options ?w) = '' * tiny | ''"
    by (simp add: initialise_def)
  have h: "\<not> (\<exists>pre post. '' * tiny | '' = pre @ ''{sev}'' @ post)"
  proof
    assume "\<exists>pre post. '' * tiny | '' = pre @ ''{sev}'' @ post"
    then obtain pre post where "'' * tiny | '' = pre @ ''{sev}'' @ post" by blast
    then have "set '' * tiny | '' = set (pre @ ''{sev}'' @ post)" by (rule arg_cong)
    then have "CHR ''{'' \<in> set '' * tiny | ''" by simp
    then show False by simp
  qed
  from buildPrompt_without_marker [of ?w WARNING] h p
  show ?thesis by simp
qed

text \<open>
  Claim C7. For every configured prompt shorter than five characters and every
  severity, the prompt builder returns the prompt unchanged, whatever it contains.
\<close>

theorem buildPrompt_short_prompt:
  assumes "length (prompt (m_options w)) < 5"
  shows "m_preparePrompt sev w = Inr (prompt (m_options w), w)"
  using assms by (simp add: m_preparePrompt_def REPLACE_LEN_def)

theorem buildPrompt_short_prompt_witness:
  "length ''{sev'' < 5 \<and>
   m_preparePrompt FATAL
     (initialise \<lparr>prompt = ''{sev'', formatChar = CHR ''@''\<rparr> startup) =
   Inr (''{sev'', initialise \<lparr>prompt = ''{sev'', formatChar = CHR ''@''\<rparr> startup)"
proof -
  let ?w = "initialise \<lparr>prompt = ''{sev'', formatChar = CHR ''@''\<rparr> startup"
  have p: "prompt (m_options ?w) = ''{sev''"
    by (simp add: initialise_def)
  then have h: "length (prompt (m_options ?w)) < 5" by simp
  from buildPrompt_short_prompt [OF h, of FATAL] p show ?thesis by simp
qed

section \<open>The logging entry points\<close>

lemma endl_put:
  "endl (put s w) = w\<lparr>cout := cout w @ s @ [CHR 0x0A],
                       flushed := length (cout w @ s @ [CHR 0x0A])\<rparr>"
  by (simp add: endl_def put_def Let_def)

lemma m_options_endl [simp]: "m_options (endl w) = m_options w"
  by (simp add: endl_def put_def Let_def)

lemma log_result:
  assumes "m_preparePrompt sev w = Inr (p, w)"
  shows "log sev fmt args w =
         Inr (endl (put (p @ format_spec (formatChar (m_options w)) fmt args) w))"
proof -
  from m_processArguments_format_spec [of fmt args "put p w"]
  obtain b where "m_processArguments fmt args (put p w) =
      Inr (b, put (p @ format_spec (formatChar (m_options w)) fmt args) w)"
    by auto
  with assms show ?thesis
    by (simp add: log_def)
qed

text \<open>The loop of \<^verbatim>\<open>logValue\<close> appends \<^verbatim>\<open>"@ "\<close> once for each trailing argument.\<close>

lemma logValue_loop_eq:
  "logValue_loop ii len format = format @ concat (replicate (len - ii) ''@ '')"
proof (induction ii len format rule: logValue_loop.induct)
  case (1 ii len format)
  show ?case
  proof (cases "ii < len")
    case True
    then have "len - ii = Suc (len - (ii + 1))" by simp
    with True "1.IH" show ?thesis
      by (subst logValue_loop.simps) simp
  next
    case False
    then show ?thesis by (subst logValue_loop.simps) simp
  qed
qed

lemma logValue_result:
  "logValue initial args w =
     Inr (endl (put (format_spec (formatChar (m_options w))
        (concat (replicate (length args) ''@ '') @ ''@'') (initial # args)) w))"
proof -
  let ?t = "concat (replicate (length args) ''@ '') @ ''@''"
  from m_processArguments_format_spec [of ?t "initial # args" w]
  obtain b where "m_processArguments ?t (initial # args) w =
      Inr (b, put (format_spec (formatChar (m_options w)) ?t (initial # args)) w)"
    by auto
  then show ?thesis
    by (simp add: logValue_def logValue_loop_eq Let_def del: m_processArguments.simps)
qed

lemma format_spec_values:
  "format_spec CHR ''@'' (concat (replicate (length args) ''@ '') @ ''@'') (initial # args) =
   render initial @ concat (map (\<lambda>a. CHR '' '' # render a) args)"
proof (induction args arbitrary: initial)
  case Nil
  show ?case by simp
next
  case (Cons a as)
  have "format_spec CHR ''@'' (concat (replicate (length (a # as)) ''@ '') @ ''@'')
          (initial # a # as) =
        render initial @ CHR '' '' #
          format_spec CHR ''@'' (concat (replicate (length as) ''@ '') @ ''@'') (a # as)"
    by simp
  with Cons.IH [of a] show ?case by simp
qed

text \<open>
  With the placeholder \<^verbatim>\<open>@\<close> configured, \<^verbatim>\<open>logValue\<close> writes the renderings
  of its arguments separated by single spaces, then a newline, and flushes.
\<close>

lemma logValue_default_placeholder:
  assumes "formatChar (m_options w) = CHR ''@''"
  shows "logValue initial args w =
     Inr (w\<lparr>cout := cout w @ render initial @
             concat (map (\<lambda>a. CHR '' '' # render a) args) @ [CHR 0x0A],
           flushed := length (cout w @ render initial @
             concat (map (\<lambda>a. CHR '' '' # render a) args) @ [CHR 0x0A])\<rparr>)"
  using assms by (simp add: logValue_result format_spec_values endl_put)

text \<open>
  With any other placeholder configured (the space apart, which the template also
  holds), the template that \<^verbatim>\<open>logValue\<close> builds from the literal \<^verbatim>\<open>@\<close> holds
  no placeholder: the template itself comes out and no argument is rendered.
\<close>

lemma logValue_other_placeholder:
  assumes "formatChar (m_options w) \<noteq> CHR ''@''" and "formatChar (m_options w) \<noteq> CHR '' ''"
  shows "logValue initial args w =
     Inr (w\<lparr>cout := cout w @ concat (replicate (length args) ''@ '') @ ''@'' @ [CHR 0x0A],
           flushed := length (cout w @ concat (replicate (length args) ''@ '') @
             ''@'' @ [CHR 0x0A])\<rparr>)"
proof -
  have "formatChar (m_options w) \<notin> set (concat (replicate (length args) ''@ '') @ ''@'')"
    using assms by auto
  from format_spec_absent [OF this] show ?thesis
    by (simp add: logValue_result endl_put)
qed

text \<open>
  Claim C1 says that \<^verbatim>\<open>logValue(1, 2, 3)\<close> produces \<^verbatim>\<open>1 2 3\<close> for every
  configured placeholder character. The code builds its template from the literal
  \<^verbatim>\<open>@\<close> and not from \<^verbatim>\<open>m_options.formatChar\<close>, which the formatter searches
  for: after \<^verbatim>\<open>initialise({"", '#'})\<close> the call writes \<^verbatim>\<open>@ @ @\<close> and a
  newline, and renders none of its arguments.
\<close>

theorem logValue_hash_placeholder:
  "logValue (LInt 1) [LInt 2, LInt 3]
     (initialise \<lparr>prompt = [], formatChar = CHR ''#''\<rparr> startup) =
   Inr ((initialise \<lparr>prompt = [], formatChar = CHR ''#''\<rparr> startup)
          \<lparr>cout := ''@ @ @'' @ [CHR 0x0A], flushed := 6\<rparr>)"
  by (simp add: logValue_def logValue_loop.simps m_findNextFormatCharacter_def
      initialise_def startup_def endl_def put_def Let_def)

text \<open>
  Claim C3. For every severity, template and argument list, \<^verbatim>\<open>log\<close> returns
  normally, having inserted the prompt that the prompt builder returns for the
  severity, then what the formatter inserts for the template and the arguments, then
  a newline, and having flushed everything inserted.
\<close>

theorem log_emits_prompt_format_newline:
  "\<exists>p. m_preparePrompt sev w = Inr (p, w) \<and>
       (\<exists>b. m_processArguments fmt args w =
          Inr (b, w\<lparr>cout := cout w @ format_spec (formatChar (m_options w)) fmt args\<rparr>)) \<and>
       log sev fmt args w =
         Inr (w\<lparr>cout := cout w @ p @
                 format_spec (formatChar (m_options w)) fmt args @ [CHR 0x0A],
               flushed := length (cout w @ p @
                 format_spec (formatChar (m_options w)) fmt args @ [CHR 0x0A])\<rparr>)"
proof -
  from m_preparePrompt_total [of sev w]
  obtain p where p: "m_preparePrompt sev w = Inr (p, w)" by blast
  from m_processArguments_format_spec [of fmt args w]
  have "\<exists>b. m_processArguments fmt args w =
          Inr (b, w\<lparr>cout := cout w @ format_spec (formatChar (m_options w)) fmt args\<rparr>)"
    by (simp add: put_def)
  with p log_result [OF p, of fmt args] show ?thesis
    by (simp add: endl_put)
qed

text \<open>
  The call \<^verbatim>\<open>log(WARNING, "@, @, @", 42, "WOW!", false)\<close> under the prompt
  \<^verbatim>\<open> * tiny ({sev}) | \<close>.
\<close>

theorem log_emits_prompt_format_newline_witness:
  "log WARNING ''@, @, @'' [LInt 42, LStr ''WOW!'', LBool False]
     (initialise \<lparr>prompt = '' * tiny ({sev}) | '', formatChar = CHR ''@''\<rparr> startup) =
   Inr ((initialise \<lparr>prompt = '' * tiny ({sev}) | '', formatChar = CHR ''@''\<rparr> startup)
          \<lparr>cout := '' * tiny ('' @ CHR 0x1B # ''[33mWARNING'' @ CHR 0x1B # ''[0m) | '' @
                   ''42, WOW!, 0'' @ [CHR 0x0A],
           flushed := 41\<rparr>)"
proof -
  let ?w = "initialise \<lparr>prompt = '' * tiny ({sev}) | '', formatChar = CHR ''@''\<rparr> startup"
  let ?args = "[LInt 42, LStr ''WOW!'', LBool False]"
  from log_emits_prompt_format_newline [of WARNING ?w "''@, @, @''" ?args]
  obtain p where p: "m_preparePrompt WARNING ?w = Inr (p, ?w)"
    and l: "log WARNING ''@, @, @'' ?args ?w =
      Inr (?w\<lparr>cout := cout ?w @ p @
              format_spec (formatChar (m_options ?w)) ''@, @, @'' ?args @ [CHR 0x0A],
            flushed := length (cout ?w @ p @
              format_spec (formatChar (m_options ?w)) ''@, @, @'' ?args @ [CHR 0x0A])\<rparr>)"
    by blast
  have "m_preparePrompt WARNING ?w =
      Inr ('' * tiny ('' @ CHR 0x1B # ''[33mWARNING'' @ CHR 0x1B # ''[0m) | '', ?w)"
    by (simp add: m_preparePrompt_def REPLACE_LEN_def REPLACE_STR_def replace_def
        initialise_def startup_def m_severityStrings_def)
  with p have "p = '' * tiny ('' @ CHR 0x1B # ''[33mWARNING'' @ CHR 0x1B # ''[0m) | ''"
    by simp
  with l show ?thesis
    by (simp add: initialise_def startup_def decimal.simps)
qed

text \<open>
  Claim C10. The prompt builder, \<^verbatim>\<open>log\<close> and \<^verbatim>\<open>logValue\<close> return normally
  and leave \<^verbatim>\<open>m_options\<close> as it was: the prompt builder returns the state it was
  given, its replacement having acted on a copy of the prompt.
\<close>

theorem logging_keeps_options:
  "(\<exists>p. m_preparePrompt sev w = Inr (p, w)) \<and>
   (\<exists>w'. log sev fmt args w = Inr w' \<and> m_options w' = m_options w) \<and>
   (\<exists>w'. logValue initial vals w = Inr w' \<and> m_options w' = m_options w)"
proof -
  from m_preparePrompt_total [of sev w]
  obtain p where p: "m_preparePrompt sev w = Inr (p, w)" by blast
  from log_result [OF p, of fmt args]
  have "\<exists>w'. log sev fmt args w = Inr w' \<and> m_options w' = m_options w" by simp
  moreover from logValue_result [of initial vals w]
  have "\<exists>w'. logValue initial vals w = Inr w' \<and> m_options w' = m_options w" by simp
  ultimately show ?thesis using p by blast
qed

text \<open>
  After \<^verbatim>\<open>log(INFO, "Hello, World!")\<close> under the prompt \<^verbatim>\<open> * tiny ({sev}) | \<close>
  the stored prompt still holds the marker.
\<close>

theorem logging_keeps_options_witness:
  "\<exists>w'. log INFO ''Hello, World!'' []
          (initialise \<lparr>prompt = '' * tiny ({sev}) | '', formatChar = CHR ''@''\<rparr> startup) =
        Inr w' \<and>
        m_options w' = \<lparr>prompt = '' * tiny ({sev}) | '', formatChar = CHR ''@''\<rparr>"
proof -
  let ?w = "initialise \<lparr>prompt = '' * tiny ({sev}) | '', formatChar = CHR ''@''\<rparr> startup"
  from logging_keeps_options [of INFO ?w "''Hello, World!''" "[]"]
  obtain w' where "log INFO ''Hello, World!'' [] ?w = Inr w'"
    and "m_options w' = m_options ?w"
    by blast
  moreover have "m_options ?w = \<lparr>prompt = '' * tiny ({sev}) | '', formatChar = CHR ''@''\<rparr>"
    by (simp add: initialise_def)
  ultimately show ?thesis by simp
qed

section \<open>Configuration\<close>

lemma fold_initialise:
  "fold initialise cfgs w = (if cfgs = [] then w else w\<lparr>m_options := last cfgs\<rparr>)"
  by (induction cfgs arbitrary: w) (auto simp: initialise_def)

text \<open>
  Claim C8. Take a process in which \<^verbatim>\<open>initialise\<close> was never called, so that
  \<^verbatim>\<open>m_options\<close> still has its default value. After any sequence of
  \<^verbatim>\<open>initialise\<close> calls with arbitrary options, a call of \<^verbatim>\<open>initialise\<close> with
  the default options brings the process back to the very state it had, so every log
  operation from there on does what it would have done had \<^verbatim>\<open>initialise\<close> never
  been called.
\<close>

theorem initialise_default_restores:
  assumes "m_options w = Options_default"
  shows "initialise Options_default (fold initialise cfgs w) = w \<and>
     log sev fmt args (initialise Options_default (fold initialise cfgs w)) =
       log sev fmt args w \<and>
     logValue initial vals (initialise Options_default (fold initialise cfgs w)) =
       logValue initial vals w"
proof -
  have "initialise Options_default (fold initialise cfgs w) =
      w\<lparr>m_options := Options_default\<rparr>"
    by (simp add: fold_initialise initialise_def)
  also have "\<dots> = w" using assms by simp
  finally show ?thesis by simp
qed

theorem initialise_default_restores_witness:
  "m_options startup = Options_default \<and>
   initialise Options_default
     (fold initialise
        [\<lparr>prompt = '' * tiny ({sev}) | '', formatChar = CHR ''#''\<rparr>,
         \<lparr>prompt = ''tiny'', formatChar = CHR ''%''\<rparr>] startup) = startup \<and>
   log INFO ''Value: @'' [LInt 42]
     (initialise Options_default
        (fold initialise
           [\<lparr>prompt = '' * tiny ({sev}) | '', formatChar = CHR ''#''\<rparr>,
            \<lparr>prompt = ''tiny'', formatChar = CHR ''%''\<rparr>] startup)) =
   Inr (startup\<lparr>cout := ''Value: 42'' @ [CHR 0x0A], flushed := 10\<rparr>)"
proof -
  let ?cfgs = "[\<lparr>prompt = '' * tiny ({sev}) | '', formatChar = CHR ''#''\<rparr>,
                \<lparr>prompt = ''tiny'', formatChar = CHR ''%''\<rparr>]"
  have h: "m_options startup = Options_default" by (simp add: startup_def)
  have "log INFO ''Value: @'' [LInt 42] startup =
      Inr (startup\<lparr>cout := ''Value: 42'' @ [CHR 0x0A], flushed := 10\<rparr>)"
    by (simp add: log_def m_preparePrompt_def REPLACE_LEN_def m_findNextFormatCharacter_def
        substr_def substr_from_def startup_def Options_default_def endl_def put_def
        Let_def decimal.simps)
  with h initialise_default_restores [OF h, of ?cfgs INFO "''Value: @''" "[LInt 42]"]
  show ?thesis by simp
qed

end
